theory Spec2Isabelle
  imports Main
begin

section \<open>Zoom recording downloader: a shallow embedding of zoom-recording-downloader.py\<close>

text \<open>
  The script is modelled function by function.  Python values are modelled as follows:
  \<^item> \<open>str\<close> is \<open>string\<close>; one \<open>char\<close> is one code point in the range 0..255;
  \<^item> a \<open>datetime\<close> is an \<open>int\<close>, the microseconds since \<open>datetime.min\<close>, and is in
    range from 0 to \<open>datetime_max\<close>; a \<open>timedelta\<close> is an \<open>int\<close> of microseconds;
    \<open><\<close> and \<open>min\<close> are those of the integers, and \<open>datetime + timedelta\<close> raises
    OverflowError when the sum is out of range;
  \<^item> a generator is the list of the values it yields together with the exception that ends
    it, if one does, inside \<open>option\<close>: \<open>None\<close> is a generator that never stops
    yielding;
  \<^item> an exception is a value \<open>Inl e\<close> of a sum type, a normal return is \<open>Inr v\<close>;
  \<^item> module-level globals, the files on disk and the calls made to the outside world are the
    fields of an explicit state record that every function takes and returns;
  \<^item> what the outside world answers (Zoom's HTTP API, the configuration file, the
    path-sanitising and date-formatting libraries) is a record of functions, \<open>env\<close>, that the
    model takes as a parameter.
\<close>

subsection \<open>Exceptions\<close>

datatype error =
    KeyError          \<comment> \<open>a missing dictionary key\<close>
  | NameError         \<comment> \<open>a global or local name that is not bound\<close>
  | OverflowError     \<comment> \<open>a date out of the range of \<open>datetime\<close>\<close>
  | SystemExit        \<comment> \<open>\<open>system.exit(1)\<close>\<close>
  | Exception'        \<comment> \<open>the bare \<open>raise Exception\<close> of get_downloads\<close>
  | RequestError      \<comment> \<open>an exception of the requests or json library\<close>
  | FormatError       \<comment> \<open>an exception inside format_filename\<close>
  | Diverges          \<comment> \<open>a loop that does not end\<close>

subsection \<open>Dates\<close>

type_synonym datetime = int
type_synonym timedelta = int

text \<open>\<open>datetime.timedelta(days=n)\<close>, in microseconds.\<close>

definition days :: "int \<Rightarrow> timedelta" where
  "days n = n * 86400 * 1000000"


text \<open>\<open>datetime.max\<close>, 9999-12-31 23:59:59.999999: the last microsecond of day 3652059.\<close>

definition datetime_max :: datetime where
  "datetime_max = 3652059 * 86400 * 1000000 - 1"

text \<open>
  \<open>datetime.__add__\<close>: the sum, or OverflowError ("date value out of range") when the
  sum is before \<open>datetime.min\<close> or after \<open>datetime.max\<close>.
\<close>

definition datetime_add :: "datetime \<Rightarrow> timedelta \<Rightarrow> error + datetime" where
  "datetime_add t d =
     (if 0 \<le> t + d \<and> t + d \<le> datetime_max then Inr (t + d) else Inl OverflowError)"

subsection \<open>per_delta (lines 220-226)\<close>

text \<open>
  \<^verbatim>\<open>
  def per_delta(start, end, delta):
      curr = start
      while curr < end:
          yield curr, min(curr + delta, end)
          curr += delta
  \<close>
  The recursion is on the loop variable \<open>curr\<close>; the first argument of the initial call is
  \<open>start\<close>.  The sum \<open>curr + delta\<close> is formed before \<open>min\<close> is applied and before the
  window is yielded: when it raises, the generator ends with that exception, having yielded
  the windows before it.  The result is the list of the windows yielded and the exception
  that ended the generator, \<open>None\<close> when it ended normally.  With \<open>delta = 0\<close> and
  \<open>curr < end\<close> the loop never ends, hence the outer \<open>option\<close>.
\<close>

partial_function (option) per_delta ::
  "datetime \<Rightarrow> datetime \<Rightarrow> timedelta
   \<Rightarrow> ((datetime \<times> datetime) list \<times> error option) option" where
  "per_delta curr' end' delta =
     (if curr' < end'
      then (case datetime_add curr' delta of
              Inl e \<Rightarrow> Some ([], Some e)
            | Inr next' \<Rightarrow>
                Option.bind (per_delta next' end' delta)
                  (\<lambda>(rest, raised). Some ((curr', min next' end') # rest, raised)))
      else Some ([], None))"

declare per_delta.simps [code]



text \<open>
  \<open>tiles s e ws\<close>: the windows \<open>ws\<close>, in order, are non-empty, start at \<open>s\<close>, follow one
  another without a gap and end at \<open>e\<close>.
\<close>

fun tiles :: "datetime \<Rightarrow> datetime \<Rightarrow> (datetime \<times> datetime) list \<Rightarrow> bool" where
  "tiles s e [] = (s = e)"
| "tiles s e ((a, b) # ws) = (a = s \<and> a < b \<and> b \<le> e \<and> tiles b e ws)"

subsection \<open>JSON records, the outside world, the program state\<close>

text \<open>
  One entry of \<open>recording["recording_files"]\<close>.  Zoom leaves \<open>recording_type\<close> out of
  some entries, and get_downloads reads it only on one branch, so it is optional; the JSON
  key \<open>id\<close> is the field \<open>file_id\<close>.
\<close>

record recording_file =
  file_type :: string
  file_extension :: string
  file_id :: string
  recording_type :: "string option"
  download_url :: string

text \<open>
  One entry of \<open>recordings_data["meetings"]\<close>; the JSON key \<open>id\<close> is the field
  \<open>rec_id\<close>.  \<open>recording_files = None\<close> is a recording without that key.
\<close>

record recording =
  uuid :: string
  rec_id :: string
  topic :: string
  start_time :: string
  recording_files :: "recording_file list option"

text \<open>The tuple \<open>(email, id, first_name, last_name)\<close> that get_users builds.\<close>

type_synonym user = "string \<times> string \<times> string \<times> string"

text \<open>
  The tuple \<open>(file_type, file_extension, download_url, recording_type, recording_id)\<close> that
  get_downloads builds.
\<close>

type_synonym download = "string \<times> string \<times> string \<times> string \<times> string"

text \<open>The calls made to Zoom, in the order they are made.\<close>

datatype call =
    TokenRequest                                \<comment> \<open>POST zoom.us/oauth/token\<close>
  | UsersRequest "nat option"                   \<comment> \<open>GET /v2/users, with a page number or not\<close>
  | RecordingsRequest string datetime datetime  \<comment> \<open>GET /v2/users/{id}/recordings\<close>
  | DownloadRequest string                      \<comment> \<open>GET of a download URL\<close>
  | DeleteRequest string                        \<comment> \<open>DELETE /v2/meetings/{id}/recordings\<close>

text \<open>
  What \<open>response.iter_content\<close> and \<open>fd.write\<close> do, step by step: \<open>Chunk b\<close> is a chunk
  that arrives and is written, \<open>Fault\<close> is an exception raised inside the \<open>try\<close> block of
  download_recording (a transport error while streaming, or a disk-write error).
\<close>

datatype io_step = Chunk string | Fault

record response =
  content_length :: "nat option"   \<comment> \<open>the header \<open>content-length\<close>, when there is one\<close>
  body :: "io_step list"

text \<open>
  The outside world.  An answer of Zoom may depend on the calls made before it (the same URL
  can fail once and succeed at the next attempt).
  \<^item> \<open>token_response\<close>: \<open>Inl\<close> when the request or \<open>json.loads\<close> raises, \<open>Inr None\<close> for
    a JSON object without the key \<open>access_token\<close>, \<open>Inr (Some t)\<close> for a token;
  \<^item> \<open>users_index\<close>: \<open>response.ok\<close> and \<open>page_count\<close> of the first users request;
  \<^item> \<open>delete_response\<close>: the \<open>status_code\<close> of the delete request;
  \<^item> format_filename (lines 152-170) is made of library calls (regex, dateutil, strftime,
    \<open>str.format\<close> on configured templates) and is taken as a function that may raise.
\<close>

record env =
  token_response :: "error + string option"
  users_index :: "call list \<Rightarrow> error + bool \<times> nat"
  users_page :: "call list \<Rightarrow> nat \<Rightarrow> error + user list"
  recordings_response :: "call list \<Rightarrow> string \<Rightarrow> datetime \<Rightarrow> datetime \<Rightarrow> error + recording list"
  download_response :: "call list \<Rightarrow> string \<Rightarrow> error + response"
  delete_response :: "call list \<Rightarrow> string \<Rightarrow> error + nat"
  format_filename ::
    "recording \<Rightarrow> string \<Rightarrow> string \<Rightarrow> string \<Rightarrow> string \<Rightarrow> error + string \<times> string"
  sanitize_filepath :: "string \<Rightarrow> string"
  sanitize_filename :: "string \<Rightarrow> string"
  RECORDING_START_DATE :: datetime
  RECORDING_END_DATE :: datetime

text \<open>
  The globals the functions read and write, the two places on disk the script writes to, and
  the calls made so far.  \<open>ACCESS_TOKEN = None\<close> is a global that has not been assigned:
  reading it raises NameError.  \<open>log_file = None\<close> is a missing completed-downloads.log.
\<close>

record state =
  ACCESS_TOKEN :: "string option"
  AUTHORIZATION_HEADER :: "string option"
  COMPLETED_MEETING_IDS :: "string set"
  log_file :: "string option"
  files :: "string \<rightharpoonup> string"
  calls :: "call list"

definition initial_state :: "string option \<Rightarrow> (string \<rightharpoonup> string) \<Rightarrow> state" where
  "initial_state log fs =
     \<lparr>ACCESS_TOKEN = None, AUTHORIZATION_HEADER = None, COMPLETED_MEETING_IDS = {},
      log_file = log, files = fs, calls = []\<rparr>"

definition DOWNLOAD_DIRECTORY :: string where
  "DOWNLOAD_DIRECTORY = ''drive/MyDrive/Zoom Recordings/2025''"

abbreviation LF :: char where "LF \<equiv> CHR 0x0A"
abbreviation CR :: char where "CR \<equiv> CHR 0x0D"

subsection \<open>load_access_token (lines 85-111) and get_users (lines 114-149)\<close>

text \<open>
  The \<open>except KeyError\<close> of load_access_token prints a message and returns: the two globals
  stay unassigned.
\<close>

definition load_access_token :: "env \<Rightarrow> state \<Rightarrow> (error + unit) \<times> state" where
  "load_access_token env s =
     (let s1 = s\<lparr>calls := calls s @ [TokenRequest]\<rparr> in
      case token_response env of
        Inl e \<Rightarrow> (Inl e, s1)
      | Inr None \<Rightarrow> (Inr (), s1)
      | Inr (Some tok) \<Rightarrow>
          (Inr (), s1\<lparr>ACCESS_TOKEN := Some tok,
                       AUTHORIZATION_HEADER := Some (''Bearer '' @ tok)\<rparr>))"

fun get_users_pages ::
  "env \<Rightarrow> nat list \<Rightarrow> user list \<Rightarrow> state \<Rightarrow> (error + user list) \<times> state" where
  "get_users_pages env [] all_users s = (Inr all_users, s)"
| "get_users_pages env (page # pages) all_users s =
     (case AUTHORIZATION_HEADER s of
        None \<Rightarrow> (Inl NameError, s)
      | Some h \<Rightarrow>
          (let s1 = s\<lparr>calls := calls s @ [UsersRequest (Some page)]\<rparr> in
           case users_page env (calls s) page of
             Inl e \<Rightarrow> (Inl e, s1)
           | Inr users \<Rightarrow> get_users_pages env pages (all_users @ users) s1))"

definition get_users :: "env \<Rightarrow> state \<Rightarrow> (error + user list) \<times> state" where
  "get_users env s =
     (case AUTHORIZATION_HEADER s of
        None \<Rightarrow> (Inl NameError, s)
      | Some h \<Rightarrow>
          (let s1 = s\<lparr>calls := calls s @ [UsersRequest None]\<rparr> in
           case users_index env (calls s) of
             Inl e \<Rightarrow> (Inl e, s1)
           | Inr (ok, page_count) \<Rightarrow>
               if \<not> ok then (Inl SystemExit, s1)
               else get_users_pages env [1..<page_count + 1] [] s1))"

subsection \<open>get_downloads (lines 173-196)\<close>

fun get_downloads_loop :: "string option \<Rightarrow> recording_file list \<Rightarrow> error + download list" where
  "get_downloads_loop token [] = Inr []"
| "get_downloads_loop token (d # ds) =
     (case (if file_type d = '''' then Inr ''incomplete''
            else if file_type d \<noteq> ''TIMELINE''
                 then (case recording_type d of None \<Rightarrow> Inl KeyError | Some t \<Rightarrow> Inr t)
                 else Inr (file_type d)) of
        Inl e \<Rightarrow> Inl e
      | Inr recording_type' \<Rightarrow>
          (case token of
             None \<Rightarrow> Inl NameError
           | Some tok \<Rightarrow>
               (case get_downloads_loop token ds of
                  Inl e \<Rightarrow> Inl e
                | Inr downloads \<Rightarrow>
                    Inr ((file_type d, file_extension d,
                          download_url d @ ''?access_token='' @ tok,
                          recording_type', file_id d) # downloads))))"

definition get_downloads :: "state \<Rightarrow> recording \<Rightarrow> error + download list" where
  "get_downloads s r =
     (case recording_files r of
        None \<Rightarrow> Inl Exception'
      | Some fs \<Rightarrow> if fs = [] then Inl Exception' else get_downloads_loop (ACCESS_TOKEN s) fs)"

subsection \<open>delete_recording (lines 207-217) and list_recordings (lines 229-251)\<close>

definition delete_recording :: "env \<Rightarrow> string \<Rightarrow> state \<Rightarrow> (error + bool) \<times> state" where
  "delete_recording env meeting_id s =
     (case AUTHORIZATION_HEADER s of
        None \<Rightarrow> (Inl NameError, s)
      | Some h \<Rightarrow>
          (let s1 = s\<lparr>calls := calls s @ [DeleteRequest meeting_id]\<rparr> in
           case delete_response env (calls s) meeting_id of
             Inl e \<Rightarrow> (Inl e, s1)
           | Inr status_code \<Rightarrow> (Inr (status_code = 204), s1)))"

text \<open>\<open>datetime.timedelta(days=30)\<close>.\<close>

definition days_30 :: timedelta where
  "days_30 = days 30"

fun list_recordings_loop ::
  "env \<Rightarrow> string \<Rightarrow> (datetime \<times> datetime) list \<Rightarrow> recording list \<Rightarrow> state
   \<Rightarrow> (error + recording list) \<times> state" where
  "list_recordings_loop env email [] recordings s = (Inr recordings, s)"
| "list_recordings_loop env email ((start, end') # windows) recordings s =
     (case AUTHORIZATION_HEADER s of
        None \<Rightarrow> (Inl NameError, s)
      | Some h \<Rightarrow>
          (let s1 = s\<lparr>calls := calls s @ [RecordingsRequest email start end']\<rparr> in
           case recordings_response env (calls s) email start end' of
             Inl e \<Rightarrow> (Inl e, s1)
           | Inr meetings \<Rightarrow> list_recordings_loop env email windows (recordings @ meetings) s1))"

text \<open>
  The \<open>for\<close> loop of list_recordings runs over the windows that per_delta yields; when the
  generator ends with an exception, the requests for the windows before it have been made
  and the exception leaves list_recordings.
\<close>

definition list_recordings :: "env \<Rightarrow> string \<Rightarrow> state \<Rightarrow> (error + recording list) \<times> state" where
  "list_recordings env email s =
     (case per_delta (RECORDING_START_DATE env) (RECORDING_END_DATE env) days_30 of
        None \<Rightarrow> (Inl Diverges, s)
      | Some (windows, raised) \<Rightarrow>
          (case list_recordings_loop env email windows [] s of
             (Inl e, s1) \<Rightarrow> (Inl e, s1)
           | (Inr recordings, s1) \<Rightarrow>
               (case raised of
                  None \<Rightarrow> (Inr recordings, s1)
                | Some e \<Rightarrow> (Inl e, s1))))"

subsection \<open>download_recording (lines 254-298)\<close>

definition full_filename :: "env \<Rightarrow> string \<Rightarrow> string \<Rightarrow> string" where
  "full_filename env filename folder_name =
     (let dl_dir = DOWNLOAD_DIRECTORY @ ''/'' @ folder_name;
          sanitized_download_dir = sanitize_filepath env dl_dir;
          sanitized_filename = sanitize_filename env filename
      in sanitized_download_dir @ ''/'' @ sanitized_filename)"

text \<open>
  The loop \<open>for chunk in response.iter_content(block_size): fd.write(chunk)\<close> on a file
  opened with \<open>"wb"\<close>: the bytes written so far, and whether the loop ended without an
  exception.
\<close>

fun write_chunks :: "io_step list \<Rightarrow> string \<Rightarrow> bool \<times> string" where
  "write_chunks [] written = (True, written)"
| "write_chunks (Chunk chunk # steps) written = write_chunks steps (written @ chunk)"
| "write_chunks (Fault # steps) written = (False, written)"

text \<open>
  \<open>requests.get\<close> is called before the \<open>try\<close>: what it raises leaves the function as it is.
  Inside the \<open>try\<close>, an exception reaches the handler of lines 293-298, whose \<open>print\<close>
  formats \<open>recording_id\<close>: that name is neither a parameter, nor a local, nor a global of the
  module, so the handler raises NameError before its \<open>return False\<close>.
\<close>

definition download_recording ::
  "env \<Rightarrow> string \<Rightarrow> string \<Rightarrow> string \<Rightarrow> string \<Rightarrow> state \<Rightarrow> (error + bool) \<times> state" where
  "download_recording env download_url' email filename folder_name s =
     (let path = full_filename env filename folder_name;
          s1 = s\<lparr>calls := calls s @ [DownloadRequest download_url']\<rparr>
      in case download_response env (calls s) download_url' of
           Inl e \<Rightarrow> (Inl e, s1)
         | Inr response \<Rightarrow>
             (let total_size = (case content_length response of None \<Rightarrow> 0 | Some n \<Rightarrow> n);
                  (finished, written) = write_chunks (body response) [];
                  s2 = s1\<lparr>files := (files s1)(path \<mapsto> written)\<rparr>
              in if \<not> finished then (Inl NameError, s2)
                 else (case files s2 path of
                         None \<Rightarrow> (Inl NameError, s2)
                       | Some on_disk \<Rightarrow>
                           (let disk_size = length on_disk
                            in if disk_size = total_size then (Inr True, s2)
                               else (Inr False, s2)))))"

subsection \<open>load_completed_meeting_ids (lines 301-310) and the append to the log\<close>

text \<open>\<open>str.isspace\<close> on the code points below 256.\<close>

definition isspace :: "char \<Rightarrow> bool" where
  "isspace c = (of_char c \<in> {9, 10, 11, 12, 13, 28, 29, 30, 31, 32, 133, 160 :: nat})"

definition strip :: "string \<Rightarrow> string" where
  "strip line = rev (dropWhile isspace (rev (dropWhile isspace line)))"

text \<open>
  A file opened with \<open>open(path, 'r')\<close> is read with universal newlines: \<open>\r\n\<close> and a
  lone \<open>\r\<close> arrive as \<open>\n\<close>.
\<close>

fun universal_newlines :: "string \<Rightarrow> string" where
  "universal_newlines (c # d # cs) =
     (if c = CR \<and> d = LF then LF # universal_newlines cs
      else if c = CR then LF # universal_newlines (d # cs)
      else c # universal_newlines (d # cs))"
| "universal_newlines [c] = (if c = CR then [LF] else [c])"
| "universal_newlines [] = []"

text \<open>
  \<open>for line in fd\<close>: every line keeps its \<open>\n\<close>; a last line without one is a line too.
  The first argument is the line read so far.
\<close>

fun file_lines :: "string \<Rightarrow> string \<Rightarrow> string list" where
  "file_lines line [] = (if line = [] then [] else [line])"
| "file_lines line (c # cs) =
     (if c = LF then (line @ [c]) # file_lines [] cs else file_lines (line @ [c]) cs)"

definition load_completed_meeting_ids :: "state \<Rightarrow> state" where
  "load_completed_meeting_ids s =
     (case log_file s of
        None \<Rightarrow> s
      | Some content \<Rightarrow>
          s\<lparr>COMPLETED_MEETING_IDS :=
              COMPLETED_MEETING_IDS s
              \<union> set (map strip (file_lines [] (universal_newlines content)))\<rparr>)"

text \<open>
  Lines 419-422 and 467-471 of main:
  \<^verbatim>\<open>
  with open(COMPLETED_MEETING_IDS_LOG, 'a') as log:
      COMPLETED_MEETING_IDS.add(meeting_id)
      log.write(meeting_id + '\n')
      log.flush()
  \<close>
  Mode \<open>'a'\<close> creates the file when it is missing.
\<close>

definition mark_complete :: "string \<Rightarrow> state \<Rightarrow> state" where
  "mark_complete meeting_id s =
     s\<lparr>COMPLETED_MEETING_IDS := insert meeting_id (COMPLETED_MEETING_IDS s),
       log_file := Some ((case log_file s of None \<Rightarrow> [] | Some content \<Rightarrow> content)
                         @ meeting_id @ [LF])\<rparr>"

text \<open>A restart after \<open>s\<close>: the disk is kept, the globals are those of a new process.\<close>

definition restart :: "state \<Rightarrow> state" where
  "restart s = initial_state (log_file s) (files s)"

subsection \<open>main (lines 322-478)\<close>

text \<open>
  The first loop over the files of a recording (lines 392-414), with the flag
  \<open>all_files_downloaded\<close> as accumulator.  An exception of format_filename or of
  download_recording is not caught in main: it ends the run.
\<close>

fun first_pass ::
  "env \<Rightarrow> recording \<Rightarrow> string \<Rightarrow> download list \<Rightarrow> bool \<Rightarrow> state \<Rightarrow> (error + bool) \<times> state" where
  "first_pass env r email [] all_files_downloaded s = (Inr all_files_downloaded, s)"
| "first_pass env r email
     ((file_type', file_extension', download_url', recording_type', recording_id) # downloads)
     all_files_downloaded s =
     (if recording_type' \<noteq> ''incomplete''
      then (case format_filename env r file_type' file_extension' recording_type' recording_id of
              Inl e \<Rightarrow> (Inl e, s)
            | Inr (filename, folder_name) \<Rightarrow>
                (case download_recording env download_url' email filename folder_name s of
                   (Inl e, s1) \<Rightarrow> (Inl e, s1)
                 | (Inr ok, s1) \<Rightarrow>
                     first_pass env r email downloads
                       (if \<not> ok then False else all_files_downloaded) s1))
      else first_pass env r email downloads False s)"

text \<open>
  The second loop (lines 439-463), entered when the first one left \<open>all_files_downloaded\<close>
  false, with the flag \<open>success\<close> as accumulator: \<open>success |= download_recording(...)\<close> for
  a file that is not incomplete, \<open>success = False\<close> for one that is.
\<close>

fun second_pass ::
  "env \<Rightarrow> recording \<Rightarrow> string \<Rightarrow> download list \<Rightarrow> bool \<Rightarrow> state \<Rightarrow> (error + bool) \<times> state" where
  "second_pass env r email [] success s = (Inr success, s)"
| "second_pass env r email
     ((file_type', file_extension', download_url', recording_type', recording_id) # downloads)
     success s =
     (if recording_type' \<noteq> ''incomplete''
      then (case format_filename env r file_type' file_extension' recording_type' recording_id of
              Inl e \<Rightarrow> (Inl e, s)
            | Inr (filename, folder_name) \<Rightarrow>
                (case download_recording env download_url' email filename folder_name s of
                   (Inl e, s1) \<Rightarrow> (Inl e, s1)
                 | (Inr ok, s1) \<Rightarrow> second_pass env r email downloads (success \<or> ok) s1))
      else second_pass env r email downloads False s)"

text \<open>
  The body of \<open>for index, recording in enumerate(recordings)\<close> (lines 377-471); \<open>index\<close>
  is only printed.  \<open>Inr ()\<close> is the end of the body or a \<open>continue\<close>.
\<close>

definition process_recording :: "env \<Rightarrow> string \<Rightarrow> recording \<Rightarrow> state \<Rightarrow> (error + unit) \<times> state" where
  "process_recording env email r s =
     (let meeting_id = uuid r in
      if meeting_id \<in> COMPLETED_MEETING_IDS s then (Inr (), s)
      else
        (case get_downloads s r of
           Inl e \<Rightarrow> (Inr (), s)
         | Inr downloads \<Rightarrow>
             (case first_pass env r email downloads True s of
                (Inl e, s1) \<Rightarrow> (Inl e, s1)
              | (Inr all_files_downloaded, s1) \<Rightarrow>
                  if all_files_downloaded
                  then (case delete_recording env meeting_id s1 of
                          (Inl e, s2) \<Rightarrow> (Inl e, s2)
                        | (Inr deleted, s2) \<Rightarrow>
                            if deleted then (Inr (), mark_complete meeting_id s2)
                            else (Inr (), s2))
                  else (case get_downloads s1 r of
                          Inl e \<Rightarrow> (Inr (), s1)
                        | Inr downloads2 \<Rightarrow>
                            (case second_pass env r email downloads2 False s1 of
                               (Inl e, s2) \<Rightarrow> (Inl e, s2)
                             | (Inr success, s2) \<Rightarrow>
                                 if success then (Inr (), mark_complete meeting_id s2)
                                 else (Inr (), s2))))))"

fun recordings_loop ::
  "env \<Rightarrow> string \<Rightarrow> recording list \<Rightarrow> state \<Rightarrow> (error + unit) \<times> state" where
  "recordings_loop env email [] s = (Inr (), s)"
| "recordings_loop env email (r # recordings) s =
     (case process_recording env email r s of
        (Inl e, s1) \<Rightarrow> (Inl e, s1)
      | (Inr u, s1) \<Rightarrow> recordings_loop env email recordings s1)"

text \<open>
  \<open>for email, user_id, first_name, last_name in users\<close> (lines 362-471).  \<open>Inr ()\<close> at the
  end of the list is the end of the loop: main then prints its summary and returns.
\<close>

fun users_loop :: "env \<Rightarrow> user list \<Rightarrow> state \<Rightarrow> (error + unit) \<times> state" where
  "users_loop env [] s = (Inr (), s)"
| "users_loop env ((email, user_id, first_name, last_name) # users) s =
     (if email \<noteq> ''val@bbooster.io'' then users_loop env users s
      else (case list_recordings env user_id s of
              (Inl e, s1) \<Rightarrow> (Inl e, s1)
            | (Inr recordings, s1) \<Rightarrow>
                (case recordings_loop env email recordings s1 of
                   (Inl e, s2) \<Rightarrow> (Inl e, s2)
                 | (Inr u, s2) \<Rightarrow> users_loop env users s2)))"

definition main :: "env \<Rightarrow> state \<Rightarrow> (error + unit) \<times> state" where
  "main env s =
     (case load_access_token env s of
        (Inl e, s1) \<Rightarrow> (Inl e, s1)
      | (Inr u, s1) \<Rightarrow>
          (let s2 = load_completed_meeting_ids s1 in
           case get_users env s2 of
             (Inl e, s3) \<Rightarrow> (Inl e, s3)
           | (Inr users, s3) \<Rightarrow> users_loop env users s3))"

subsection \<open>A concrete account, for running the model\<close>

text \<open>
  An account with one user, the owner the script looks for, whose recordings are \<open>recs\<close>
  and whose downloads are answered by \<open>dl\<close>.  The token request succeeds, every delete
  request is answered 204, the configured range is one window of 30 days, and the file of a
  download is named after the recording's topic and the file's id.
\<close>

definition example_env :: "recording list \<Rightarrow> (call list \<Rightarrow> string \<Rightarrow> error + response) \<Rightarrow> env" where
  "example_env recs dl =
     \<lparr>token_response = Inr (Some ''tok''),
      users_index = (\<lambda>history. Inr (True, 1)),
      users_page = (\<lambda>history page. Inr [(''val@bbooster.io'', ''u1'', ''Val'', ''V'')]),
      recordings_response = (\<lambda>history user_id start end'. Inr recs),
      download_response = dl,
      delete_response = (\<lambda>history meeting_id. Inr 204),
      format_filename =
        (\<lambda>r file_type' file_extension' recording_type' recording_id.
           Inr (recording_id @ ''.'' @ file_extension', topic r)),
      sanitize_filepath = (\<lambda>path. path),
      sanitize_filename = (\<lambda>name. name),
      RECORDING_START_DATE = 0,
      RECORDING_END_DATE = days_30\<rparr>"

text \<open>An entry with an empty \<open>file_type\<close>: get_downloads gives it the type \<open>incomplete\<close>.\<close>

definition incomplete_file :: recording_file where
  "incomplete_file =
     \<lparr>file_type = '''', file_extension = '''', file_id = ''f0'', recording_type = None,
      download_url = ''https://zoom.us/rec/download/f0''\<rparr>"

definition video_file :: recording_file where
  "video_file =
     \<lparr>file_type = ''MP4'', file_extension = ''MP4'', file_id = ''f1'',
      recording_type = Some ''shared_screen_with_speaker_view'',
      download_url = ''https://zoom.us/rec/download/f1''\<rparr>"

definition audio_file :: recording_file where
  "audio_file =
     \<lparr>file_type = ''M4A'', file_extension = ''M4A'', file_id = ''f2'',
      recording_type = Some ''audio_only'',
      download_url = ''https://zoom.us/rec/download/f2''\<rparr>"

text \<open>The recording R2 of the specification: one incomplete file, one complete file.\<close>

definition recording_R2 :: recording where
  "recording_R2 =
     \<lparr>uuid = ''R2'', rec_id = ''2'', topic = ''standup'', start_time = ''2025-01-10T10:00:00Z'',
      recording_files = Some [incomplete_file, video_file]\<rparr>"

definition recording_R1 :: recording where
  "recording_R1 =
     \<lparr>uuid = ''R1'', rec_id = ''1'', topic = ''review'', start_time = ''2025-01-09T10:00:00Z'',
      recording_files = Some [video_file, audio_file]\<rparr>"

text \<open>A download whose three bytes arrive, with the matching \<open>content-length\<close>.\<close>

definition good_response :: response where
  "good_response = \<lparr>content_length = Some 3, body = [Chunk ''abc'']\<rparr>"

text \<open>A download whose connection breaks after two of three bytes.\<close>

definition broken_response :: response where
  "broken_response = \<lparr>content_length = Some 3, body = [Chunk ''ab'', Fault]\<rparr>"

definition env_R2 :: env where
  "env_R2 = example_env [recording_R2] (\<lambda>history url. Inr good_response)"

definition env_broken :: env where
  "env_broken = example_env [recording_R1, recording_R2] (\<lambda>history url. Inr broken_response)"

text \<open>A download that ends, without an exception, after two of the three bytes declared.\<close>

definition short_response :: response where
  "short_response = \<lparr>content_length = Some 3, body = [Chunk ''ab'']\<rparr>"

text \<open>A download of three bytes whose response has no \<open>content-length\<close> header.\<close>

definition headerless_response :: response where
  "headerless_response = \<lparr>content_length = None, body = [Chunk ''abc'']\<rparr>"

text \<open>The video of R1 arrives truncated at every attempt, its audio arrives whole.\<close>

definition env_truncated :: env where
  "env_truncated =
     example_env [recording_R1]
       (\<lambda>history url. if url = ''https://zoom.us/rec/download/f1?access_token=tok''
                       then Inr short_response else Inr good_response)"

definition env_headerless :: env where
  "env_headerless = example_env [recording_R1] (\<lambda>history url. Inr headerless_response)"

text \<open>The token request is answered by a JSON object without \<open>access_token\<close>.\<close>

definition env_no_token :: env where
  "env_no_token = (example_env [recording_R1] (\<lambda>history url. Inr good_response))
                    \<lparr>token_response := Inr None\<rparr>"

text \<open>The state of a process that has its token and has read a log holding \<open>R1\<close>.\<close>

definition resumed_state :: state where
  "resumed_state =
     load_completed_meeting_ids
       ((initial_state (Some (''R1'' @ [LF])) Map.empty)
          \<lparr>ACCESS_TOKEN := Some ''tok'', AUTHORIZATION_HEADER := Some ''Bearer tok''\<rparr>)"

section \<open>Theorems\<close>

subsection \<open>Properties of per_delta\<close>

lemma per_delta_stop: "end' \<le> curr' \<Longrightarrow> per_delta curr' end' delta = Some ([], None)"
  by (subst per_delta.simps) simp

lemma per_delta_step:
  "curr' < end' \<Longrightarrow> datetime_add curr' delta = Inr next' \<Longrightarrow>
   per_delta next' end' delta = Some (rest, raised) \<Longrightarrow>
   per_delta curr' end' delta = Some ((curr', min next' end') # rest, raised)"
  by (subst per_delta.simps) simp

lemma per_delta_raise:
  "curr' < end' \<Longrightarrow> datetime_add curr' delta = Inl e \<Longrightarrow>
   per_delta curr' end' delta = Some ([], Some e)"
  by (subst per_delta.simps) simp

lemma datetime_add_in_range:
  "0 \<le> t + d \<Longrightarrow> t + d \<le> datetime_max \<Longrightarrow> datetime_add t d = Inr (t + d)"
  by (simp add: datetime_add_def)

lemma datetime_add_overflow:
  "datetime_max < t + d \<Longrightarrow> datetime_add t d = Inl OverflowError"
  by (simp add: datetime_add_def)

lemma tiles_le: "tiles s e ws \<Longrightarrow> s \<le> e"
  by (induction ws arbitrary: s) auto








text \<open>
  The condition of the next theorem is needed: when one of the sums the loop forms passes
  \<open>datetime.max\<close>, the generator ends with OverflowError.
\<close>

lemma per_delta_overflow:
  assumes "0 < w" and "e \<le> datetime_max + 1"
  shows "0 \<le> s \<Longrightarrow> s + int k * w < e \<Longrightarrow> datetime_max < s + (int k + 1) * w \<Longrightarrow>
         \<exists>ws. per_delta s e w = Some (ws, Some OverflowError)"
proof (induction k arbitrary: s)
  case 0
  then have "s < e" and "datetime_max < s + w" by simp_all
  then show ?case
    by (simp add: per_delta_raise datetime_add_overflow)
next
  case (Suc k)
  from Suc.prems(2) assms(1) have lt: "s + w + int k * w < e"
    by (simp add: algebra_simps)
  have "0 \<le> int k * w" using assms(1) by simp
  with lt have sw: "s + w < e" by linarith
  with assms(1) have s: "s < e" by simp
  from sw assms(2) Suc.prems(1) assms(1) have add: "datetime_add s w = Inr (s + w)"
    by (simp add: datetime_add_in_range)
  from Suc.prems(3) have "datetime_max < s + w + (int k + 1) * w"
    by (simp add: algebra_simps)
  with Suc.IH [of "s + w"] lt Suc.prems(1) assms(1)
  obtain ws where "per_delta (s + w) e w = Some (ws, Some OverflowError)" by auto
  from per_delta_step [OF s add this] show ?case by blast
qed




text \<open>
  Claim C7, as amended.  When \<open>start > end\<close>, per_delta raises nothing: it stops at once
  and yields the empty sequence of windows, whatever the window size.
\<close>

theorem per_delta_start_after_end:
  "e < s \<Longrightarrow> per_delta s e w = Some ([], None)"
  by (simp add: per_delta_stop)

text \<open>The amended claim C7 at \<open>start = 5\<close>, \<open>end = 3\<close>.\<close>

theorem per_delta_start_after_end_witness:
  "(3::int) < 5 \<and> per_delta 5 3 30 = Some ([], None)"
  using per_delta_start_after_end [of 3 5 30] by simp

text \<open>
  Claim C7 as stated fails: with \<open>start = 2\<close> and \<open>end = 1\<close> the generator returns
  normally, having yielded no window; no error is raised.
\<close>

theorem per_delta_start_after_end_counterexample:
  "(1::int) < 2 \<and> per_delta 2 1 1 = Some ([], None)"
  by (simp add: per_delta_stop)

subsection \<open>The completion log\<close>

lemma universal_newlines_append:
  "xs = [] \<or> last xs \<noteq> CR \<Longrightarrow>
   universal_newlines (xs @ ys) = universal_newlines xs @ universal_newlines ys"
proof (induction xs rule: universal_newlines.induct)
  case (1 c d cs)
  then show ?case by (cases cs) (auto split: if_splits)
next
  case (2 c)
  then show ?case by (cases ys) auto
next
  case 3
  then show ?case by simp
qed

lemma universal_newlines_no_CR: "CR \<notin> set xs \<Longrightarrow> universal_newlines xs = xs"
  by (induction xs rule: universal_newlines.induct) auto

lemma universal_newlines_ends_LF:
  "xs \<noteq> [] \<Longrightarrow> last xs = LF \<Longrightarrow> \<exists>pre. universal_newlines xs = pre @ [LF]"
proof (induction xs rule: universal_newlines.induct)
  case (1 c d cs)
  show ?case
  proof (cases cs)
    case Nil
    with 1 show ?thesis by auto
  next
    case (Cons a as)
    with 1 show ?thesis by (auto split: if_splits)
  qed
qed auto

lemma file_lines_one: "LF \<notin> set xs \<Longrightarrow> file_lines line (xs @ [LF]) = [line @ xs @ [LF]]"
  by (induction xs arbitrary: line) auto

lemma file_lines_append:
  "file_lines line (xs @ LF # ys) = file_lines line (xs @ [LF]) @ file_lines [] ys"
  by (induction xs arbitrary: line) auto

lemma strip_fixed_ends:
  assumes "strip xs = xs" "xs \<noteq> []"
  shows "\<not> isspace (hd xs) \<and> \<not> isspace (last xs)"
proof -
  have len: "length (dropWhile isspace (rev (dropWhile isspace xs))) = length xs"
    using assms(1) by (metis length_rev strip_def)
  have a: "length (dropWhile isspace (rev (dropWhile isspace xs))) \<le> length (dropWhile isspace xs)"
    by (metis length_dropWhile_le length_rev)
  have b: "length (dropWhile isspace xs) \<le> length xs"
    by (rule length_dropWhile_le)
  from len a b have "length (dropWhile isspace xs) = length xs" by simp
  then have eq1: "dropWhile isspace xs = xs"
    by (metis dropWhile_eq_drop drop_eq_Nil2 append_self_conv2 takeWhile_dropWhile_id length_append add_cancel_right_left length_0_conv)
  with assms(2) have h: "\<not> isspace (hd xs)"
    by (metis hd_dropWhile)
  from len eq1 have "length (dropWhile isspace (rev xs)) = length (rev xs)" by simp
  then have "dropWhile isspace (rev xs) = rev xs"
    by (metis append_self_conv2 takeWhile_dropWhile_id length_append add_cancel_right_left length_0_conv)
  with assms(2) have "\<not> isspace (hd (rev xs))"
    by (metis hd_dropWhile rev_is_Nil_conv)
  with assms(2) h show ?thesis by (simp add: hd_rev)
qed

lemma strip_line:
  assumes "strip xs = xs"
  shows "strip (xs @ [LF]) = xs"
proof (cases "xs = []")
  case True
  then show ?thesis by (simp add: strip_def isspace_def)
next
  case False
  with strip_fixed_ends [OF assms] have h: "\<not> isspace (hd xs)" and l: "\<not> isspace (last xs)"
    by simp_all
  from False h have "dropWhile isspace (xs @ [LF]) = xs @ [LF]"
    by (cases xs) auto
  moreover from False l have "dropWhile isspace (rev xs) = rev xs"
    by (cases "rev xs") (auto simp: last_rev hd_rev dest: arg_cong [where f = hd])
  ultimately show ?thesis
    by (simp add: strip_def isspace_def)
qed

lemma hydrate_after_append:
  assumes id: "strip meeting_id = meeting_id" "LF \<notin> set meeting_id" "CR \<notin> set meeting_id"
    and log: "content = [] \<or> last content = LF"
  shows "meeting_id \<in> set (map strip (file_lines [] (universal_newlines (content @ meeting_id @ [LF]))))"
proof -
  have entry: "universal_newlines (meeting_id @ [LF]) = meeting_id @ [LF]"
    using id(3) by (simp add: universal_newlines_no_CR)
  have split: "universal_newlines (content @ meeting_id @ [LF])
               = universal_newlines content @ meeting_id @ [LF]"
    using log universal_newlines_append [of content "meeting_id @ [LF]"] entry by auto
  have last_line: "file_lines [] (meeting_id @ [LF]) = [meeting_id @ [LF]]"
    using id(2) by (simp add: file_lines_one)
  have "meeting_id @ [LF] \<in> set (file_lines [] (universal_newlines content @ meeting_id @ [LF]))"
  proof (cases "content = []")
    case True
    with last_line show ?thesis by simp
  next
    case False
    with log universal_newlines_ends_LF [of content]
    obtain pre where pre: "universal_newlines content = pre @ [LF]" by auto
    have "file_lines [] (pre @ LF # (meeting_id @ [LF]))
          = file_lines [] (pre @ [LF]) @ file_lines [] (meeting_id @ [LF])"
      by (rule file_lines_append)
    with pre last_line show ?thesis by simp
  qed
  then have "strip (meeting_id @ [LF])
             \<in> strip ` set (file_lines [] (universal_newlines (content @ meeting_id @ [LF])))"
    unfolding split by (rule imageI)
  then show ?thesis
    using strip_line [OF id(1)] by simp
qed

text \<open>
  Claim C4, as amended.  Let the identifier have no line break in it and no white space at
  either end (\<open>strip\<close> leaves it as it is), and let the log be missing, empty, or end with
  a newline, as every log does that only this script has written.  Then after the append of
  lines 419-422, a new process that reads the log back has the identifier in
  \<open>COMPLETED_MEETING_IDS\<close>.
\<close>

theorem mark_complete_roundtrip:
  assumes "strip meeting_id = meeting_id" and "LF \<notin> set meeting_id" and "CR \<notin> set meeting_id"
    and "case log_file s of None \<Rightarrow> True | Some content \<Rightarrow> content = [] \<or> last content = LF"
  shows "meeting_id \<in> COMPLETED_MEETING_IDS
                        (load_completed_meeting_ids (restart (mark_complete meeting_id s)))"
proof -
  define content where "content = (case log_file s of None \<Rightarrow> [] | Some c \<Rightarrow> c)"
  with assms(4) have "content = [] \<or> last content = LF"
    by (cases "log_file s") simp_all
  from hydrate_after_append [OF assms(1-3) this]
  show ?thesis
    by (simp add: load_completed_meeting_ids_def restart_def mark_complete_def initial_state_def
        content_def)
qed

text \<open>The amended claim C4 at the identifier \<open>R1\<close>, appended to a log that holds \<open>R0\<close>.\<close>

theorem mark_complete_roundtrip_witness:
  "strip ''R1'' = ''R1'' \<and> LF \<notin> set ''R1'' \<and> CR \<notin> set ''R1''
   \<and> ''R1'' \<in> COMPLETED_MEETING_IDS
        (load_completed_meeting_ids
           (restart (mark_complete ''R1'' (initial_state (Some (''R0'' @ [LF])) Map.empty))))"
proof -
  have a: "strip ''R1'' = ''R1''" by (simp add: strip_def isspace_def)
  have b: "LF \<notin> set ''R1''" and c: "CR \<notin> set ''R1''" by simp_all
  have d: "case log_file (initial_state (Some (''R0'' @ [LF])) Map.empty) of
             None \<Rightarrow> True | Some content \<Rightarrow> content = [] \<or> last content = LF"
    by (simp add: initial_state_def)
  from mark_complete_roundtrip [OF a b c d] a b c show ?thesis by blast
qed

text \<open>
  Claim C4 as stated, for every identifier, fails.  The identifier \<open>" a"\<close> is written as
  the line \<open>" a\n"\<close> and read back, stripped, as \<open>"a"\<close>.  And an identifier \<open>"b"\<close>
  appended to a log whose last line \<open>"a"\<close> has no newline is read back as \<open>"ab"\<close>.
\<close>

theorem mark_complete_roundtrip_counterexample:
  "'' a'' \<notin> COMPLETED_MEETING_IDS
      (load_completed_meeting_ids
         (restart (mark_complete '' a'' (initial_state None Map.empty))))
   \<and> ''b'' \<notin> COMPLETED_MEETING_IDS
      (load_completed_meeting_ids
         (restart (mark_complete ''b'' (initial_state (Some ''a'') Map.empty))))"
  by (simp add: load_completed_meeting_ids_def restart_def mark_complete_def initial_state_def
      strip_def isspace_def)

subsection \<open>download_recording\<close>

lemma download_recording_result:
  assumes "download_response env (calls s) url = Inr r"
    and "write_chunks (body r) [] = (finished, written)"
  shows "download_recording env url email filename folder_name s =
           (if finished
            then Inr (length written = (case content_length r of None \<Rightarrow> 0 | Some n \<Rightarrow> n))
            else Inl NameError,
            s\<lparr>calls := calls s @ [DownloadRequest url],
              files := (files s)(full_filename env filename folder_name \<mapsto> written)\<rparr>)"
  using assms by (simp add: download_recording_def Let_def)

text \<open>
  The size check when the response declares a content length \<open>n\<close>.  The bytes on disk
  after the call are the chunks written before any exception.  Whenever download_recording
  returns, it returns success if and only if the number of bytes on disk equals \<open>n\<close>; it
  returns whenever no exception is raised inside its \<open>try\<close> block.  A stream shorter than
  \<open>n\<close> never gives success.
\<close>

lemma download_recording_size_check:
  assumes "download_response env (calls s) url = Inr r"
    and "content_length r = Some n"
    and "write_chunks (body r) [] = (finished, written)"
    and "download_recording env url email filename folder_name s = (result, s')"
  shows "files s' (full_filename env filename folder_name) = Some written
         \<and> (\<forall>b. result = Inr b \<longrightarrow> (b \<longleftrightarrow> length written = n))
         \<and> (finished \<longrightarrow> result = Inr (length written = n))
         \<and> (length written < n \<longrightarrow> result \<noteq> Inr True)
         \<and> (length written < n \<and> finished \<longrightarrow> result = Inr False)"
  using download_recording_result [OF assms(1) assms(3), of email filename folder_name] assms(2,4)
  by (auto split: if_splits)

text \<open>
  Claim C5 fails on the code.  The response declares three bytes; two arrive and are
  written, then the stream raises, as it does when the connection closes before the declared
  length is reached.  The stream is shorter than the declared length, and download_recording
  does not return failure: its handler raises NameError (its message reads the unbound name
  \<open>recording_id\<close>) before its \<open>return False\<close>.  The two bytes stay on disk.
\<close>

theorem download_recording_short_stream_raises:
  "content_length broken_response = Some 3
   \<and> write_chunks (body broken_response) [] = (False, ''ab'')
   \<and> length ''ab'' < (3::nat)
   \<and> download_recording env_broken ''https://zoom.us/rec/download/f1?access_token=tok''
         ''val@bbooster.io'' ''f1.MP4'' ''review'' (initial_state None Map.empty)
       = (Inl NameError,
          (initial_state None Map.empty)
            \<lparr>calls := [DownloadRequest ''https://zoom.us/rec/download/f1?access_token=tok''],
              files := [''drive/MyDrive/Zoom Recordings/2025/review/f1.MP4'' \<mapsto> ''ab'']\<rparr>)
   \<and> fst (download_recording env_broken ''https://zoom.us/rec/download/f1?access_token=tok''
              ''val@bbooster.io'' ''f1.MP4'' ''review'' (initial_state None Map.empty))
       \<noteq> Inr False"
  by (simp add: env_broken_def example_env_def broken_response_def download_recording_def
      full_filename_def DOWNLOAD_DIRECTORY_def initial_state_def Let_def)

text \<open>
  Claim C10.  Let the response have no \<open>content-length\<close> header: the expected size is 0.
  Whenever download_recording returns, it returns success if and only if the file on disk
  is empty; it returns whenever no exception is raised inside its \<open>try\<close> block.  A
  non-empty body never gives success, and gives the failure result when nothing is raised.
\<close>

theorem download_recording_no_content_length:
  assumes "download_response env (calls s) url = Inr r"
    and "content_length r = None"
    and "write_chunks (body r) [] = (finished, written)"
    and "download_recording env url email filename folder_name s = (result, s')"
  shows "files s' (full_filename env filename folder_name) = Some written
         \<and> (\<forall>b. result = Inr b \<longrightarrow> (b \<longleftrightarrow> written = []))
         \<and> (finished \<longrightarrow> result = Inr (written = []))
         \<and> (written \<noteq> [] \<longrightarrow> result \<noteq> Inr True)
         \<and> (written \<noteq> [] \<and> finished \<longrightarrow> result = Inr False)"
  using download_recording_result [OF assms(1) assms(3), of email filename folder_name] assms(2,4)
  by (auto split: if_splits)

text \<open>
  Claim C10 at a response without the header that delivers three bytes: the result is failure.
\<close>

theorem download_recording_no_content_length_witness:
  "download_response env_headerless (calls (initial_state None Map.empty)) ''u''
     = Inr headerless_response
   \<and> content_length headerless_response = None
   \<and> write_chunks (body headerless_response) [] = (True, ''abc'')
   \<and> download_recording env_headerless ''u'' ''val@bbooster.io'' ''f1.MP4'' ''review''
         (initial_state None Map.empty)
       = (Inr False,
          (initial_state None Map.empty)
            \<lparr>calls := [DownloadRequest ''u''],
              files := [full_filename env_headerless ''f1.MP4'' ''review'' \<mapsto> ''abc'']\<rparr>)
   \<and> (Inr False :: error + bool) \<noteq> Inr True"
proof -
  let ?s = "initial_state None Map.empty"
  let ?s' = "?s\<lparr>calls := [DownloadRequest ''u''],
                  files := [full_filename env_headerless ''f1.MP4'' ''review'' \<mapsto> ''abc'']\<rparr>"
  have h1: "download_response env_headerless (calls ?s) ''u'' = Inr headerless_response"
    by (simp add: env_headerless_def example_env_def)
  have h2: "content_length headerless_response = None"
    by (simp add: headerless_response_def)
  have h3: "write_chunks (body headerless_response) [] = (True, ''abc'')"
    by (simp add: headerless_response_def)
  have h4: "download_recording env_headerless ''u'' ''val@bbooster.io'' ''f1.MP4'' ''review'' ?s
            = (Inr False, ?s')"
    using h1 h3
    by (simp add: download_recording_def Let_def headerless_response_def initial_state_def)
  from download_recording_no_content_length [OF h1 h2 h3 h4]
  have "(Inr False :: error + bool) \<noteq> Inr True" by simp
  with h1 h2 h3 h4 show ?thesis by blast
qed

subsection \<open>The ledger only grows inside the loop over the recordings\<close>

lemma download_recording_completed:
  "COMPLETED_MEETING_IDS (snd (download_recording env url email filename folder_name s))
   = COMPLETED_MEETING_IDS s"
  by (simp add: download_recording_def Let_def split: sum.splits prod.splits option.splits)

lemma delete_recording_completed:
  "COMPLETED_MEETING_IDS (snd (delete_recording env meeting_id s)) = COMPLETED_MEETING_IDS s"
  by (simp add: delete_recording_def Let_def split: sum.splits option.splits)

lemma first_pass_completed:
  "COMPLETED_MEETING_IDS (snd (first_pass env r email downloads flag s)) = COMPLETED_MEETING_IDS s"
proof (induction downloads arbitrary: flag s)
  case Nil
  then show ?case by simp
next
  case (Cons d downloads)
  obtain ft fe url rt rid where d: "d = (ft, fe, url, rt, rid)" by (cases d)
  show ?case
  proof (cases "rt \<noteq> ''incomplete''")
    case False
    with d Cons.IH show ?thesis by simp
  next
    case True
    show ?thesis
    proof (cases "format_filename env r ft fe rt rid")
      case (Inl e)
      with d True show ?thesis by simp
    next
      case (Inr names)
      obtain filename folder_name where names: "names = (filename, folder_name)" by (cases names)
      obtain res s1 where dl: "download_recording env url email filename folder_name s = (res, s1)"
        by (cases "download_recording env url email filename folder_name s")
      with download_recording_completed [of env url email filename folder_name s]
      have s1: "COMPLETED_MEETING_IDS s1 = COMPLETED_MEETING_IDS s" by simp
      show ?thesis
      proof (cases res)
        case (Inl e)
        with d True Inr names dl s1 show ?thesis by simp
      next
        case ok: (Inr ok)
        with d True Inr names dl s1 Cons.IH show ?thesis by simp
      qed
    qed
  qed
qed

lemma second_pass_completed:
  "COMPLETED_MEETING_IDS (snd (second_pass env r email downloads flag s)) = COMPLETED_MEETING_IDS s"
proof (induction downloads arbitrary: flag s)
  case Nil
  then show ?case by simp
next
  case (Cons d downloads)
  obtain ft fe url rt rid where d: "d = (ft, fe, url, rt, rid)" by (cases d)
  show ?case
  proof (cases "rt \<noteq> ''incomplete''")
    case False
    with d Cons.IH show ?thesis by simp
  next
    case True
    show ?thesis
    proof (cases "format_filename env r ft fe rt rid")
      case (Inl e)
      with d True show ?thesis by simp
    next
      case (Inr names)
      obtain filename folder_name where names: "names = (filename, folder_name)" by (cases names)
      obtain res s1 where dl: "download_recording env url email filename folder_name s = (res, s1)"
        by (cases "download_recording env url email filename folder_name s")
      with download_recording_completed [of env url email filename folder_name s]
      have s1: "COMPLETED_MEETING_IDS s1 = COMPLETED_MEETING_IDS s" by simp
      show ?thesis
      proof (cases res)
        case (Inl e)
        with d True Inr names dl s1 show ?thesis by simp
      next
        case ok: (Inr ok)
        with d True Inr names dl s1 Cons.IH show ?thesis by simp
      qed
    qed
  qed
qed

lemma mark_complete_completed:
  "COMPLETED_MEETING_IDS (mark_complete meeting_id s) = insert meeting_id (COMPLETED_MEETING_IDS s)"
  by (simp add: mark_complete_def)

lemma process_recording_skip:
  "uuid r \<in> COMPLETED_MEETING_IDS s \<Longrightarrow> process_recording env email r s = (Inr (), s)"
  by (simp add: process_recording_def)

lemma first_pass_completed':
  "first_pass env r email downloads flag s = (res, s1) \<Longrightarrow>
   COMPLETED_MEETING_IDS s1 = COMPLETED_MEETING_IDS s"
  using first_pass_completed [of env r email downloads flag s] by simp

lemma second_pass_completed':
  "second_pass env r email downloads flag s = (res, s1) \<Longrightarrow>
   COMPLETED_MEETING_IDS s1 = COMPLETED_MEETING_IDS s"
  using second_pass_completed [of env r email downloads flag s] by simp

lemma delete_recording_completed':
  "delete_recording env meeting_id s = (res, s1) \<Longrightarrow>
   COMPLETED_MEETING_IDS s1 = COMPLETED_MEETING_IDS s"
  using delete_recording_completed [of env meeting_id s] by simp

lemma process_recording_grows:
  assumes "process_recording env email r s = (res, s')"
  shows "COMPLETED_MEETING_IDS s \<subseteq> COMPLETED_MEETING_IDS s'"
  using assms
  by (auto simp: process_recording_def Let_def mark_complete_completed
      split: sum.splits prod.splits if_splits
      dest!: first_pass_completed' second_pass_completed' delete_recording_completed')

lemma recordings_loop_filter:
  "L \<subseteq> COMPLETED_MEETING_IDS s \<Longrightarrow>
   recordings_loop env email recordings s
   = recordings_loop env email (filter (\<lambda>r. uuid r \<notin> L) recordings) s"
proof (induction recordings arbitrary: s)
  case Nil
  then show ?case by simp
next
  case (Cons r recordings)
  show ?case
  proof (cases "uuid r \<in> L")
    case True
    with Cons.prems have "process_recording env email r s = (Inr (), s)"
      by (auto intro: process_recording_skip)
    with True Cons.IH [OF Cons.prems] show ?thesis by simp
  next
    case False
    obtain res s1 where step: "process_recording env email r s = (res, s1)"
      by (cases "process_recording env email r s")
    from process_recording_grows [OF step] Cons.prems
    have "L \<subseteq> COMPLETED_MEETING_IDS s1" by blast
    from Cons.IH [OF this] False step show ?thesis
      by (cases res) simp_all
  qed
qed

text \<open>
  Claim C6.  Let \<open>L\<close> be identifiers that are in the ledger when the loop over the
  recordings starts.  A recording whose identifier is in \<open>L\<close> is skipped: the state after
  it is the state before it, so no download, no delete call and no append to the log were
  made for it.  The loop over a list of recordings does what it does on the list without
  the recordings of \<open>L\<close>; on a list of recordings that are all in \<open>L\<close> it changes nothing.
\<close>

theorem recordings_loop_skips_completed:
  assumes "L \<subseteq> COMPLETED_MEETING_IDS s"
  shows "(uuid r \<in> L \<longrightarrow> process_recording env email r s = (Inr (), s))
         \<and> recordings_loop env email recordings s
             = recordings_loop env email (filter (\<lambda>r. uuid r \<notin> L) recordings) s
         \<and> ((\<forall>r\<in>set recordings. uuid r \<in> L) \<longrightarrow>
              recordings_loop env email recordings s = (Inr (), s))"
proof -
  have one: "uuid r \<in> L \<longrightarrow> process_recording env email r s = (Inr (), s)"
    using assms by (auto intro: process_recording_skip)
  have filter: "recordings_loop env email recordings s
             = recordings_loop env email (filter (\<lambda>r. uuid r \<notin> L) recordings) s"
    using assms by (rule recordings_loop_filter)
  have "recordings_loop env email recordings s = (Inr (), s)"
    if "\<forall>r\<in>set recordings. uuid r \<in> L"
  proof -
    from that have "filter (\<lambda>r. uuid r \<notin> L) recordings = []"
      by (simp add: filter_empty_conv)
    with filter show ?thesis by simp
  qed
  with one filter show ?thesis by blast
qed

text \<open>
  Claim C6 at a ledger read back from a log that holds \<open>R1\<close>: processing R1 again, once
  or twice, leaves the state as it is.
\<close>

theorem recordings_loop_skips_completed_witness:
  "{''R1''} \<subseteq> COMPLETED_MEETING_IDS resumed_state
   \<and> uuid recording_R1 \<in> {''R1''}
   \<and> process_recording env_R2 ''val@bbooster.io'' recording_R1 resumed_state
       = (Inr (), resumed_state)
   \<and> recordings_loop env_R2 ''val@bbooster.io'' [recording_R1, recording_R1] resumed_state
       = (Inr (), resumed_state)"
proof -
  have h: "{''R1''} \<subseteq> COMPLETED_MEETING_IDS resumed_state"
    by (simp add: resumed_state_def load_completed_meeting_ids_def initial_state_def
        strip_def isspace_def)
  have u: "uuid recording_R1 \<in> {''R1''}"
    by (simp add: recording_R1_def)
  from recordings_loop_skips_completed
         [OF h, of recording_R1 env_R2 "''val@bbooster.io''" "[recording_R1, recording_R1]"] h u
  show ?thesis by simp
qed

subsection \<open>The loop over the users\<close>

lemma users_loop_filter:
  "users_loop env users s = users_loop env (filter (\<lambda>u. fst u = ''val@bbooster.io'') users) s"
proof (induction users arbitrary: s)
  case Nil
  then show ?case by simp
next
  case (Cons u users)
  obtain email user_id first_name last_name where u: "u = (email, user_id, first_name, last_name)"
    by (cases u)
  show ?case
  proof (cases "email = ''val@bbooster.io''")
    case False
    with u Cons.IH show ?thesis by simp
  next
    case True
    with u show ?thesis
      by (simp add: Cons.IH [symmetric] split: prod.splits sum.splits)
  qed
qed

text \<open>
  Claim C9.  A user whose email is not \<open>val@bbooster.io\<close> is passed over: the loop
  continues with the next user in the same state, so nothing was listed, downloaded, deleted
  or written for that user.  The loop over all users is the loop over the users with that
  one email.
\<close>

theorem users_loop_only_owner:
  "(email \<noteq> ''val@bbooster.io'' \<longrightarrow>
      users_loop env ((email, user_id, first_name, last_name) # users) s = users_loop env users s)
   \<and> users_loop env users s
       = users_loop env (filter (\<lambda>u. fst u = ''val@bbooster.io'') users) s"
  using users_loop_filter [of env users s] by simp

text \<open>
  Claim C9 at the user \<open>ann@example.com\<close>: the loop ends in the state it started in.
\<close>

theorem users_loop_only_owner_witness:
  "''ann@example.com'' \<noteq> ''val@bbooster.io''
   \<and> users_loop env_R2 [(''ann@example.com'', ''u0'', ''Ann'', ''A'')] resumed_state
       = (Inr (), resumed_state)"
  using users_loop_only_owner
          [of "''ann@example.com''" env_R2 "''u0''" "''Ann''" "''A''" "[]" resumed_state]
  by simp

subsection \<open>main\<close>

text \<open>
  Claim C8.  Let the token request raise, or be answered without an \<open>access_token\<close>.
  Then main, started in a new process, ends with an exception; the token request is the
  only call it has made (no request for the users, no listing, no download, no delete), and
  the files and the log on disk are as they were.  When the answer lacks the key, the
  exception is the NameError of get_users reading \<open>AUTHORIZATION_HEADER\<close>, which
  load_access_token has not assigned.
\<close>

theorem main_aborts_without_token:
  assumes "token_response env = Inr None \<or> (\<exists>e. token_response env = Inl e)"
  shows "\<exists>e s. main env (initial_state log fs) = (Inl e, s)
               \<and> calls s = [TokenRequest] \<and> files s = fs \<and> log_file s = log"
  using assms
  by (auto simp: main_def load_access_token_def load_completed_meeting_ids_def get_users_def
      initial_state_def split: option.splits)

text \<open>
  Claim C8 at the account whose token request is answered without a token.
\<close>

theorem main_aborts_without_token_witness:
  "(token_response env_no_token = Inr None \<or> (\<exists>e. token_response env_no_token = Inl e))
   \<and> (\<exists>e s. main env_no_token (initial_state None Map.empty) = (Inl e, s)
               \<and> calls s = [TokenRequest] \<and> files s = Map.empty \<and> log_file s = None)"
proof -
  have h: "token_response env_no_token = Inr None \<or> (\<exists>e. token_response env_no_token = Inl e)"
    by (simp add: env_no_token_def example_env_def)
  from main_aborts_without_token [OF h, of None Map.empty] h show ?thesis by blast
qed

lemmas run_defs = main_def example_env_def initial_state_def load_access_token_def
      load_completed_meeting_ids_def get_users_def list_recordings_def
      process_recording_def get_downloads_def recording_R2_def recording_R1_def incomplete_file_def
      video_file_def audio_file_def
      download_recording_def full_filename_def good_response_def short_response_def broken_response_def
      delete_recording_def mark_complete_def Let_def

lemma one_window: "per_delta 0 days_30 days_30 = Some ([(0, days_30)], None)"
proof -
  have "datetime_add 0 days_30 = Inr days_30"
    by (simp add: datetime_add_def datetime_max_def days_30_def days_def)
  moreover have "per_delta days_30 days_30 days_30 = Some ([], None)"
    by (simp add: per_delta_stop)
  moreover have "(0::int) < days_30"
    by (simp add: days_30_def days_def)
  ultimately show ?thesis
    using per_delta_step [of 0 days_30 days_30 days_30 "[]" None] by simp
qed

text \<open>
  Claim C1 fails on the code.  The recording R2 has an incomplete file followed by a file
  that downloads with the right size.  The first loop leaves \<open>all_files_downloaded\<close> false,
  so no delete call is made; the second loop of the \<open>else\<close> branch downloads the file again
  and \<open>success |= True\<close> after the \<open>success = False\<close> of the incomplete file leaves
  \<open>success\<close> true: R2 is added to the ledger and to the log.  The recording R1, whose
  video arrives truncated at both attempts and whose audio arrives whole, is added to the
  ledger in the same way, the truncated video on disk.  In both runs the calls made contain
  no delete request.
\<close>

theorem main_ledgers_failed_recording:
  "fst (main env_R2 (initial_state None Map.empty)) = Inr ()
   \<and> ''R2'' \<in> COMPLETED_MEETING_IDS (snd (main env_R2 (initial_state None Map.empty)))
   \<and> log_file (snd (main env_R2 (initial_state None Map.empty))) = Some (''R2'' @ [LF])
   \<and> calls (snd (main env_R2 (initial_state None Map.empty)))
       = [TokenRequest, UsersRequest None, UsersRequest (Some 1),
          RecordingsRequest ''u1'' 0 days_30,
          DownloadRequest ''https://zoom.us/rec/download/f1?access_token=tok'',
          DownloadRequest ''https://zoom.us/rec/download/f1?access_token=tok'']
   \<and> fst (main env_truncated (initial_state None Map.empty)) = Inr ()
   \<and> ''R1'' \<in> COMPLETED_MEETING_IDS (snd (main env_truncated (initial_state None Map.empty)))
   \<and> log_file (snd (main env_truncated (initial_state None Map.empty))) = Some (''R1'' @ [LF])
   \<and> files (snd (main env_truncated (initial_state None Map.empty)))
        ''drive/MyDrive/Zoom Recordings/2025/review/f1.MP4'' = Some ''ab''
   \<and> calls (snd (main env_truncated (initial_state None Map.empty)))
       = [TokenRequest, UsersRequest None, UsersRequest (Some 1),
          RecordingsRequest ''u1'' 0 days_30,
          DownloadRequest ''https://zoom.us/rec/download/f1?access_token=tok'',
          DownloadRequest ''https://zoom.us/rec/download/f2?access_token=tok'',
          DownloadRequest ''https://zoom.us/rec/download/f1?access_token=tok'',
          DownloadRequest ''https://zoom.us/rec/download/f2?access_token=tok'']"
proof -
  have R2: "main env_R2 (initial_state None Map.empty) =
    (Inr (),
     \<lparr>ACCESS_TOKEN = Some ''tok'', AUTHORIZATION_HEADER = Some ''Bearer tok'',
      COMPLETED_MEETING_IDS = {''R2''}, log_file = Some (''R2'' @ [LF]),
      files = [''drive/MyDrive/Zoom Recordings/2025/standup/f1.MP4'' \<mapsto> ''abc''],
      calls = [TokenRequest, UsersRequest None, UsersRequest (Some 1),
          RecordingsRequest ''u1'' 0 days_30,
          DownloadRequest ''https://zoom.us/rec/download/f1?access_token=tok'',
          DownloadRequest ''https://zoom.us/rec/download/f1?access_token=tok'']\<rparr>)"
    by (simp add: env_R2_def run_defs one_window DOWNLOAD_DIRECTORY_def)
  have R1: "main env_truncated (initial_state None Map.empty) =
    (Inr (),
     \<lparr>ACCESS_TOKEN = Some ''tok'', AUTHORIZATION_HEADER = Some ''Bearer tok'',
      COMPLETED_MEETING_IDS = {''R1''}, log_file = Some (''R1'' @ [LF]),
      files = [''drive/MyDrive/Zoom Recordings/2025/review/f1.MP4'' \<mapsto> ''ab'',
               ''drive/MyDrive/Zoom Recordings/2025/review/f2.M4A'' \<mapsto> ''abc''],
      calls = [TokenRequest, UsersRequest None, UsersRequest (Some 1),
          RecordingsRequest ''u1'' 0 days_30,
          DownloadRequest ''https://zoom.us/rec/download/f1?access_token=tok'',
          DownloadRequest ''https://zoom.us/rec/download/f2?access_token=tok'',
          DownloadRequest ''https://zoom.us/rec/download/f1?access_token=tok'',
          DownloadRequest ''https://zoom.us/rec/download/f2?access_token=tok'']\<rparr>)"
    by (simp add: env_truncated_def run_defs one_window DOWNLOAD_DIRECTORY_def)
  show ?thesis
    unfolding R1 R2 by simp
qed

text \<open>
  Claim C3 fails on the code.  The connection of the first download breaks inside the
  \<open>try\<close> block: the handler raises NameError (its message reads the unbound name
  \<open>recording_id\<close>) instead of returning \<open>False\<close>, and main, which does not catch it, ends
  with that exception after the first download request: the other file of R1 and the
  recording R2 are not processed, and the summary is not reached.
\<close>

theorem download_exception_aborts_run:
  "fst (download_recording env_broken ''https://zoom.us/rec/download/f1?access_token=tok''
          ''val@bbooster.io'' ''f1.MP4'' ''review''
          (initial_state None Map.empty)) = Inl NameError
   \<and> fst (main env_broken (initial_state None Map.empty)) = Inl NameError
   \<and> calls (snd (main env_broken (initial_state None Map.empty)))
       = [TokenRequest, UsersRequest None, UsersRequest (Some 1),
          RecordingsRequest ''u1'' 0 days_30,
          DownloadRequest ''https://zoom.us/rec/download/f1?access_token=tok'']"
  by (simp add: env_broken_def run_defs one_window)

subsection \<open>No delete call for a recording with an incomplete file\<close>

text \<open>
  The part of the all-or-nothing rule that the code keeps: the two loops over the files make
  download requests only, and the first loop cannot leave \<open>all_files_downloaded\<close> true
  once it has met an incomplete file.  So for a recording with an incomplete file, the
  calls made are download requests: delete_recording is not invoked.
\<close>

lemma download_recording_calls:
  "calls (snd (download_recording env url email filename folder_name s))
   = calls s @ [DownloadRequest url]"
  by (simp add: download_recording_def Let_def split: sum.splits prod.splits option.splits)

lemma first_pass_calls:
  "\<exists>urls. calls (snd (first_pass env r email downloads flag s))
           = calls s @ map DownloadRequest urls"
proof (induction downloads arbitrary: flag s)
  case Nil
  show ?case by (rule exI [of _ "[]"]) simp
next
  case (Cons d downloads)
  obtain ft fe url rt rid where d: "d = (ft, fe, url, rt, rid)" by (cases d)
  show ?case
  proof (cases "rt \<noteq> ''incomplete''")
    case False
    with d Cons.IH [of False s] show ?thesis by simp
  next
    case True
    show ?thesis
    proof (cases "format_filename env r ft fe rt rid")
      case (Inl e)
      with d True show ?thesis by (intro exI [of _ "[]"]) simp
    next
      case (Inr names)
      obtain filename folder_name where names: "names = (filename, folder_name)" by (cases names)
      obtain res s1 where dl: "download_recording env url email filename folder_name s = (res, s1)"
        by (cases "download_recording env url email filename folder_name s")
      with download_recording_calls [of env url email filename folder_name s]
      have s1: "calls s1 = calls s @ [DownloadRequest url]" by simp
      show ?thesis
      proof (cases res)
        case (Inl e)
        with d True Inr names dl s1 show ?thesis by (intro exI [of _ "[url]"]) simp
      next
        case ok: (Inr ok)
        from Cons.IH [of "if \<not> ok then False else flag" s1]
        obtain urls where "calls (snd (first_pass env r email downloads
                                        (if \<not> ok then False else flag) s1))
                           = calls s1 @ map DownloadRequest urls"
          by blast
        with d True Inr names dl s1 ok show ?thesis
          by (intro exI [of _ "url # urls"]) simp
      qed
    qed
  qed
qed

lemma second_pass_calls:
  "\<exists>urls. calls (snd (second_pass env r email downloads flag s))
           = calls s @ map DownloadRequest urls"
proof (induction downloads arbitrary: flag s)
  case Nil
  show ?case by (rule exI [of _ "[]"]) simp
next
  case (Cons d downloads)
  obtain ft fe url rt rid where d: "d = (ft, fe, url, rt, rid)" by (cases d)
  show ?case
  proof (cases "rt \<noteq> ''incomplete''")
    case False
    with d Cons.IH [of False s] show ?thesis by simp
  next
    case True
    show ?thesis
    proof (cases "format_filename env r ft fe rt rid")
      case (Inl e)
      with d True show ?thesis by (intro exI [of _ "[]"]) simp
    next
      case (Inr names)
      obtain filename folder_name where names: "names = (filename, folder_name)" by (cases names)
      obtain res s1 where dl: "download_recording env url email filename folder_name s = (res, s1)"
        by (cases "download_recording env url email filename folder_name s")
      with download_recording_calls [of env url email filename folder_name s]
      have s1: "calls s1 = calls s @ [DownloadRequest url]" by simp
      show ?thesis
      proof (cases res)
        case (Inl e)
        with d True Inr names dl s1 show ?thesis by (intro exI [of _ "[url]"]) simp
      next
        case ok: (Inr ok)
        from Cons.IH [of "flag \<or> ok" s1]
        obtain urls where "calls (snd (second_pass env r email downloads (flag \<or> ok) s1))
                           = calls s1 @ map DownloadRequest urls"
          by blast
        with d True Inr names dl s1 ok show ?thesis
          by (intro exI [of _ "url # urls"]) simp
      qed
    qed
  qed
qed

lemma first_pass_flag_False:
  "fst (first_pass env r email downloads False s) \<noteq> Inr True"
proof (induction downloads arbitrary: s)
  case Nil
  show ?case by simp
next
  case (Cons d downloads)
  obtain ft fe url rt rid where d: "d = (ft, fe, url, rt, rid)" by (cases d)
  with Cons.IH show ?case
    by (simp split: sum.splits prod.splits)
qed

lemma first_pass_incomplete:
  "(ft, fe, url, ''incomplete'', rid) \<in> set downloads \<Longrightarrow>
   fst (first_pass env r email downloads flag s) \<noteq> Inr True"
proof (induction downloads arbitrary: flag s)
  case Nil
  then show ?case by simp
next
  case (Cons d downloads)
  obtain ft' fe' url' rt' rid' where d: "d = (ft', fe', url', rt', rid')" by (cases d)
  show ?case
  proof (cases "rt' = ''incomplete''")
    case True
    with d first_pass_flag_False [of env r email downloads s] show ?thesis by simp
  next
    case False
    with d Cons.prems have "(ft, fe, url, ''incomplete'', rid) \<in> set downloads" by auto
    from Cons.IH [OF this] d False show ?thesis
      by (simp split: sum.splits prod.splits)
  qed
qed

lemma no_delete_for_incomplete_recording:
  assumes "get_downloads s r = Inr downloads"
    and "(ft, fe, url, ''incomplete'', rid) \<in> set downloads"
  shows "\<exists>urls. calls (snd (process_recording env email r s))
                 = calls s @ map DownloadRequest urls"
proof (cases "uuid r \<in> COMPLETED_MEETING_IDS s")
  case True
  then show ?thesis by (intro exI [of _ "[]"]) (simp add: process_recording_def)
next
  case False
  obtain res s1 where fp: "first_pass env r email downloads True s = (res, s1)"
    by (cases "first_pass env r email downloads True s")
  from first_pass_calls [of env r email downloads True s] fp
  obtain urls1 where s1: "calls s1 = calls s @ map DownloadRequest urls1" by auto
  from first_pass_incomplete [OF assms(2), of env r email True s] fp
  have res: "res \<noteq> Inr True" by simp
  show ?thesis
  proof (cases res)
    case (Inl e)
    with False assms(1) fp s1 show ?thesis
      by (intro exI [of _ urls1]) (simp add: process_recording_def)
  next
    case (Inr flag)
    with res have flag: "\<not> flag" by simp
    show ?thesis
    proof (cases "get_downloads s1 r")
      case (Inl e)
      with False assms(1) fp s1 Inr flag show ?thesis
        by (intro exI [of _ urls1]) (simp add: process_recording_def)
    next
      case ds2: (Inr downloads2)
      obtain res2 s2 where sp: "second_pass env r email downloads2 False s1 = (res2, s2)"
        by (cases "second_pass env r email downloads2 False s1")
      from second_pass_calls [of env r email downloads2 False s1] sp
      obtain urls2 where s2: "calls s2 = calls s1 @ map DownloadRequest urls2" by auto
      with False assms(1) fp s1 Inr flag ds2 sp show ?thesis
        by (intro exI [of _ "urls1 @ urls2"])
           (simp add: process_recording_def mark_complete_def split: sum.splits)
    qed
  qed
qed

end
